theory Spec2Isabelle
  imports Main "HOL-Library.Sublist" "HOL-Library.List_Lexorder" "HOL-Library.AList"
begin

section \<open>Text\<close>

text \<open>
  A Python \<open>str\<close> is a sequence of Unicode code points, and \<open>len\<close> counts code points.
  A string is therefore a list of code points (natural numbers); \<open>asc\<close> embeds an ASCII
  literal. Letters and decimal digits are those of ASCII: the Unicode tables beyond ASCII
  are not part of the model (a letter outside ASCII is left as it is by \<open>py_lower\<close> and
  \<open>py_title\<close>, and \<open>\d\<close> accepts \<open>0\<close> to \<open>9\<close>). White space is the whole set of
  \<open>str.isspace\<close>. Paths are POSIX paths.
\<close>

type_synonym ustr = "nat list"

definition asc :: "string \<Rightarrow> ustr" where
  "asc s = map of_char s"

abbreviation ch :: "char \<Rightarrow> nat" where
  "ch c \<equiv> of_char c"

abbreviation NL :: nat where
  "NL \<equiv> 10"

text \<open>
  A call that raises has the value \<open>None\<close>. \<open>xs[-1]\<close> raises IndexError on the empty
  list.
\<close>

definition py_last :: "'a list \<Rightarrow> 'a option" where
  "py_last xs = (if xs = [] then None else Some (last xs))"

text \<open>\<open>s.split(sep)\<close> for a separator of one character.\<close>

fun py_split :: "'a \<Rightarrow> 'a list \<Rightarrow> 'a list list" where
  "py_split sep [] = [[]]"
| "py_split sep (c # cs) =
     (if c = sep then [] # py_split sep cs
      else (case py_split sep cs of
              [] \<Rightarrow> [[c]]
            | seg # segs \<Rightarrow> (c # seg) # segs))"

text \<open>\<open>s.strip(chars)\<close>, \<open>s.lstrip(chars)\<close>: every leading and trailing character of the set goes.\<close>

definition py_lstrip :: "nat list \<Rightarrow> ustr \<Rightarrow> ustr" where
  "py_lstrip chars s = dropWhile (\<lambda>c. c \<in> set chars) s"

definition py_strip :: "nat list \<Rightarrow> ustr \<Rightarrow> ustr" where
  "py_strip chars s = rev (dropWhile (\<lambda>c. c \<in> set chars) (rev (dropWhile (\<lambda>c. c \<in> set chars) s)))"

definition quote_chars :: "nat list" where
  "quote_chars = [ch CHR 0x22, ch CHR 0x27]"

definition lower_cp :: "nat \<Rightarrow> nat" where
  "lower_cp c = (if ch CHR ''A'' \<le> c \<and> c \<le> ch CHR ''Z'' then c + 32 else c)"

definition upper_cp :: "nat \<Rightarrow> nat" where
  "upper_cp c = (if ch CHR ''a'' \<le> c \<and> c \<le> ch CHR ''z'' then c - 32 else c)"

definition is_cased :: "nat \<Rightarrow> bool" where
  "is_cased c = ((ch CHR ''A'' \<le> c \<and> c \<le> ch CHR ''Z'') \<or> (ch CHR ''a'' \<le> c \<and> c \<le> ch CHR ''z''))"

definition py_lower :: "ustr \<Rightarrow> ustr" where
  "py_lower s = map lower_cp s"

text \<open>\<open>os.path.basename\<close> (POSIX): the text after the last \<open>/\<close>.\<close>

definition after_last :: "nat \<Rightarrow> ustr \<Rightarrow> ustr" where
  "after_last sep s = rev (takeWhile (\<lambda>c. c \<noteq> sep) (rev s))"

definition basename :: "ustr \<Rightarrow> ustr" where
  "basename p = after_last (ch CHR ''/'') p"

subsection \<open>The three regular-expression substitutions\<close>

text \<open>
  \<open>re.sub(r'\.[^.]+$', '', s)\<close>. The scan goes from the left; at a position the pattern
  matches when the character is a dot and the rest of the string is non-empty and has no
  dot (the class \<open>[^.]\<close> takes a newline too, and the greedy match runs to the end of
  the string). The match is deleted and nothing is left to scan.
\<close>

fun sub_dot_ext :: "ustr \<Rightarrow> ustr" where
  "sub_dot_ext [] = []"
| "sub_dot_ext (c # cs) =
     (if c = ch CHR ''.'' \<and> cs \<noteq> [] \<and> ch CHR ''.'' \<notin> set cs then []
      else c # sub_dot_ext cs)"

text \<open>
  \<open>re.sub(r'.[^.]+$', '', s)\<close>, the pattern of the HUBS line: the first atom is an
  unescaped dot, which matches every character except a newline.
\<close>

fun sub_any_ext :: "ustr \<Rightarrow> ustr" where
  "sub_any_ext [] = []"
| "sub_any_ext (c # cs) =
     (if c \<noteq> NL \<and> cs \<noteq> [] \<and> ch CHR ''.'' \<notin> set cs then []
      else c # sub_any_ext cs)"

definition source_exts :: "ustr list" where
  "source_exts = map asc [''py'', ''go'', ''js'', ''ts'', ''jsx'', ''tsx'', ''rb'', ''rs'',
                          ''c'', ''h'', ''cpp'', ''hpp'', ''java'', ''swift'']"

text \<open>
  \<open>re.sub(r'\.(py|go|js|ts|jsx|tsx|rb|rs|c|h|cpp|hpp|java|swift)$', '', s)\<close>. Without
  the MULTILINE flag \<open>$\<close> matches at the end of the string and also just before a newline
  that is the last character: there the extension is deleted and the newline stays.
\<close>

fun sub_known_ext :: "ustr \<Rightarrow> ustr" where
  "sub_known_ext [] = []"
| "sub_known_ext (c # cs) =
     (if c = ch CHR ''.'' \<and> cs \<in> set source_exts then []
      else if c = ch CHR ''.'' \<and> cs \<noteq> [] \<and> last cs = NL \<and> butlast cs \<in> set source_exts then [NL]
      else c # sub_known_ext cs)"

section \<open>Import normalizer\<close>

text \<open>\<open>normalize_import(imp, lang)\<close>, lines 31-38; \<open>lang\<close> is not used by the body.\<close>

definition normalize_import :: "ustr \<Rightarrow> ustr \<Rightarrow> ustr option" where
  "normalize_import imp lang =
     (let imp1 = py_strip quote_chars imp in
      case (if ch CHR ''/'' \<in> set imp1 then py_last (py_split (ch CHR ''/'') imp1) else Some imp1) of
        None \<Rightarrow> None
      | Some imp2 \<Rightarrow>
         (case (if ch CHR ''.'' \<in> set imp2 \<and> \<not> prefix [ch CHR ''.''] imp2
                then py_last (py_split (ch CHR ''.'') imp2) else Some imp2) of
            None \<Rightarrow> None
          | Some imp3 \<Rightarrow> Some (py_lower (sub_known_ext imp3))))"

text \<open>
  The resolver's key for a file (lines 63-64): basename, final extension removed,
  lower-cased.
\<close>

definition normalize_basename :: "ustr \<Rightarrow> ustr" where
  "normalize_basename p = py_lower (sub_dot_ext (basename p))"

subsection \<open>The normalizer as the specification words it\<close>

text \<open>Step 4 as written: a trailing extension of the enumerated set is removed.\<close>

definition strip_trailing_ext :: "ustr \<Rightarrow> ustr" where
  "strip_trailing_ext s =
     (case filter (\<lambda>e. suffix (ch CHR ''.'' # e) s) source_exts of
        [] \<Rightarrow> s
      | e # _ \<Rightarrow> take (length s - Suc (length e)) s)"

definition normalize_spec :: "ustr \<Rightarrow> ustr" where
  "normalize_spec imp =
     (let s1 = py_strip quote_chars imp;
          s2 = (if ch CHR ''/'' \<in> set s1 then after_last (ch CHR ''/'') s1 else s1);
          s3 = (if ch CHR ''.'' \<in> set s2 \<and> \<not> prefix [ch CHR ''.''] s2
                then after_last (ch CHR ''.'') s2 else s2);
          s4 = strip_trailing_ext s3
      in py_lower s4)"

text \<open>
  Step 4 with the behaviour of \<open>$\<close>: the extension is also removed when one newline,
  the last character of the string, follows it; the newline is kept.
\<close>

definition strip_trailing_ext_nl :: "ustr \<Rightarrow> ustr" where
  "strip_trailing_ext_nl s =
     (if s \<noteq> [] \<and> last s = NL \<and> strip_trailing_ext (butlast s) \<noteq> butlast s
      then strip_trailing_ext (butlast s) @ [NL]
      else strip_trailing_ext s)"

definition normalize_spec_nl :: "ustr \<Rightarrow> ustr" where
  "normalize_spec_nl imp =
     (let s1 = py_strip quote_chars imp;
          s2 = (if ch CHR ''/'' \<in> set s1 then after_last (ch CHR ''/'') s1 else s1);
          s3 = (if ch CHR ''.'' \<in> set s2 \<and> \<not> prefix [ch CHR ''.''] s2
                then after_last (ch CHR ''.'') s2 else s2);
          s4 = strip_trailing_ext_nl s3
      in py_lower s4)"

section \<open>Internal dependency resolver\<close>

record file_record =
  f_path :: ustr
  f_language :: ustr
  f_imports :: "ustr list option"
  f_functions :: "ustr list option"

text \<open>\<open>f.get("imports") or []\<close> and \<open>f.get("functions") or []\<close>: an absent field is the empty list.\<close>

definition or_empty :: "'a list option \<Rightarrow> 'a list" where
  "or_empty v = (case v of None \<Rightarrow> [] | Some xs \<Rightarrow> xs)"

definition LANG_GROUPS :: "(ustr \<times> ustr) list" where
  "LANG_GROUPS =
     [(asc ''python'', asc ''python''), (asc ''go'', asc ''go''),
      (asc ''javascript'', asc ''js''), (asc ''typescript'', asc ''js''),
      (asc ''rust'', asc ''rust''), (asc ''ruby'', asc ''ruby''),
      (asc ''c'', asc ''c''), (asc ''cpp'', asc ''c''),
      (asc ''java'', asc ''java''), (asc ''swift'', asc ''swift''),
      (asc ''bash'', asc ''bash''), (asc ''kotlin'', asc ''kotlin''),
      (asc ''c_sharp'', asc ''c_sharp''), (asc ''php'', asc ''php''),
      (asc ''dart'', asc ''dart''), (asc ''r'', asc ''r'')]"

text \<open>\<open>LANG_GROUPS.get(lang, lang)\<close>\<close>

definition lang_group :: "ustr \<Rightarrow> ustr" where
  "lang_group lang = (case map_of LANG_GROUPS lang of None \<Rightarrow> lang | Some g \<Rightarrow> g)"

definition stdlib_names :: "ustr list" where
  "stdlib_names = map asc
     [''errors'', ''fmt'', ''io'', ''os'', ''path'', ''sync'', ''time'', ''context'', ''http'',
      ''net'', ''bytes'', ''strings'', ''strconv'', ''sort'', ''flag'', ''log'', ''bufio'',
      ''encoding'', ''testing'', ''runtime'', ''unsafe'', ''reflect'', ''regexp'',
      ''logging'', ''typing'', ''collections'', ''datetime'', ''json'', ''sys'', ''re'',
      ''pathlib'', ''hashlib'', ''base64'', ''asyncio'', ''enum'', ''functools'', ''random'',
      ''path'', ''fs'', ''util'', ''events'', ''stream'', ''crypto'', ''http'', ''https'']"

text \<open>
  A dictionary whose key order is observed is an association list in insertion order;
  \<open>AList.update\<close> keeps the place of a key that is present and appends a new one, as
  Python's \<open>dict\<close> does. \<open>dd_get\<close> reads a \<open>defaultdict(list)\<close> (and \<open>d.get(k, [])\<close>);
  \<open>dd_touch\<close> is the insertion of the empty list that the read \<open>d[k]\<close> performs for
  a missing key.
\<close>

type_synonym deps_map = "(ustr \<times> ustr list) list"

definition dd_get :: "('k \<times> 'v list) list \<Rightarrow> 'k \<Rightarrow> 'v list" where
  "dd_get d k = (case map_of d k of None \<Rightarrow> [] | Some v \<Rightarrow> v)"

definition dd_touch :: "('k \<times> 'v list) list \<Rightarrow> 'k \<Rightarrow> ('k \<times> 'v list) list" where
  "dd_touch d k = (case map_of d k of None \<Rightarrow> d @ [(k, [])] | Some v \<Rightarrow> d)"

text \<open>Lines 58-65: the reverse index, name to list of (path, language group).\<close>

type_synonym name_index = "ustr \<Rightarrow> (ustr \<times> ustr) list option"

definition index_file :: "file_record \<Rightarrow> name_index \<Rightarrow> name_index" where
  "index_file f idx =
     (let path = f_path f;
          lang_grp = lang_group (f_language f);
          name = normalize_basename path
      in idx(name \<mapsto> (case idx name of None \<Rightarrow> [] | Some l \<Rightarrow> l) @ [(path, lang_grp)]))"

definition name_to_infos :: "file_record list \<Rightarrow> name_index" where
  "name_to_infos files = fold index_file files Map.empty"

text \<open>Lines 86-96: the loop over the candidates of one import.\<close>

fun candidates_loop :: "ustr \<Rightarrow> ustr \<Rightarrow> (ustr \<times> ustr) list \<Rightarrow> deps_map \<Rightarrow> deps_map" where
  "candidates_loop path src_group [] deps = deps"
| "candidates_loop path src_group ((target_path, target_group) # cands) deps =
     (if target_path = path then candidates_loop path src_group cands deps
      else if src_group \<noteq> target_group then candidates_loop path src_group cands deps
      else
        (let target_name = basename target_path in
         if target_name = basename path then candidates_loop path src_group cands deps
         else
           (let deps1 = dd_touch deps path in
            if target_name \<notin> set (dd_get deps1 path)
            then candidates_loop path src_group cands
                   (AList.update path (dd_get deps1 path @ [target_name]) deps1)
            else candidates_loop path src_group cands deps1)))"

text \<open>Lines 73-96: the loop over the imports of one file.\<close>

fun imports_loop :: "name_index \<Rightarrow> ustr \<Rightarrow> ustr \<Rightarrow> ustr list \<Rightarrow> deps_map \<Rightarrow> deps_map option" where
  "imports_loop idx path src_lang [] deps = Some deps"
| "imports_loop idx path src_lang (imp # imps) deps =
     (if ch CHR ''/'' \<notin> set imp \<and> ch CHR ''.'' \<notin> set imp \<and> py_lower imp \<in> set stdlib_names
      then imports_loop idx path src_lang imps deps
      else
        (case normalize_import imp src_lang of
           None \<Rightarrow> None
         | Some norm \<Rightarrow>
             if norm \<in> set stdlib_names then imports_loop idx path src_lang imps deps
             else
               (case idx norm of
                  None \<Rightarrow> imports_loop idx path src_lang imps deps
                | Some candidates \<Rightarrow>
                    imports_loop idx path src_lang imps
                      (candidates_loop path (lang_group src_lang) candidates deps))))"

text \<open>Lines 68-96: the loop over the files.\<close>

fun files_loop :: "name_index \<Rightarrow> file_record list \<Rightarrow> deps_map \<Rightarrow> deps_map option" where
  "files_loop idx [] deps = Some deps"
| "files_loop idx (f # fs) deps =
     (case imports_loop idx (f_path f) (f_language f) (or_empty (f_imports f)) deps of
        None \<Rightarrow> None
      | Some deps' \<Rightarrow> files_loop idx fs deps')"

definition find_internal_deps :: "file_record list \<Rightarrow> deps_map option" where
  "find_internal_deps files = files_loop (name_to_infos files) files []"

section \<open>Output text\<close>

text \<open>The characters outside ASCII that the renderer prints, by code point.\<close>

definition HLINE :: nat where "HLINE = 0x2500"
definition VBAR :: nat where "VBAR = 0x2502"
definition FHOOK :: nat where "FHOOK = 0x192"
definition DHLINE :: nat where "DHLINE = 0x2550"
definition TRIANGLE :: nat where "TRIANGLE = 0x25B6"
definition TEE_DOWN :: nat where "TEE_DOWN = 0x252C"
definition TEE_RIGHT :: nat where "TEE_RIGHT = 0x251C"
definition TEE_LEFT :: nat where "TEE_LEFT = 0x2524"
definition CORNER_UP_RIGHT :: nat where "CORNER_UP_RIGHT = 0x2514"
definition ARC_DOWN_RIGHT :: nat where "ARC_DOWN_RIGHT = 0x256D"
definition ARC_DOWN_LEFT :: nat where "ARC_DOWN_LEFT = 0x256E"
definition ARC_UP_RIGHT :: nat where "ARC_UP_RIGHT = 0x2570"
definition ARC_UP_LEFT :: nat where "ARC_UP_LEFT = 0x256F"
definition LEFT_ARROW :: nat where "LEFT_ARROW = 0x2190"
definition MIDDLE_DOT :: nat where "MIDDLE_DOT = 0xB7"

abbreviation SP :: nat where
  "SP \<equiv> 32"

text \<open>\<open>str(n)\<close> for a number that is not negative.\<close>

function py_str :: "nat \<Rightarrow> ustr" where
  "py_str n = (if n < 10 then [ch CHR ''0'' + n] else py_str (n div 10) @ [ch CHR ''0'' + n mod 10])"
  by pat_completeness auto
termination
  by (relation "measure id") auto

declare py_str.simps [simp del]

text \<open>\<open>xs[:k]\<close>: a negative bound counts from the end.\<close>

definition py_take :: "int \<Rightarrow> 'a list \<Rightarrow> 'a list" where
  "py_take k xs = (if 0 \<le> k then take (nat k) xs else take (length xs - nat (- k)) xs)"

text \<open>\<open>sep.join(xs)\<close>\<close>

fun py_join :: "ustr \<Rightarrow> ustr list \<Rightarrow> ustr" where
  "py_join sep [] = []"
| "py_join sep [x] = x"
| "py_join sep (x # y # ys) = x @ sep @ py_join sep (y # ys)"

text \<open>\<open>s.replace(a, b)\<close> for two strings of one character.\<close>

definition py_replace :: "nat \<Rightarrow> nat \<Rightarrow> ustr \<Rightarrow> ustr" where
  "py_replace a b s = map (\<lambda>c. if c = a then b else c) s"

text \<open>
  \<open>s.title()\<close>: a cased character is upper-cased after an uncased one (or at the start)
  and lower-cased after a cased one.
\<close>

fun title_from :: "bool \<Rightarrow> ustr \<Rightarrow> ustr" where
  "title_from previous_is_cased [] = []"
| "title_from previous_is_cased (c # cs) =
     (if is_cased c
      then (if previous_is_cased then lower_cp c else upper_cp c) # title_from True cs
      else c # title_from False cs)"

definition py_title :: "ustr \<Rightarrow> ustr" where
  "py_title s = title_from False s"

text \<open>The characters \<open>str.isspace\<close> accepts, which \<open>s.strip()\<close> removes.\<close>

definition is_space :: "nat \<Rightarrow> bool" where
  "is_space c =
     ((0x9 \<le> c \<and> c \<le> 0xD) \<or> (0x1C \<le> c \<and> c \<le> 0x20) \<or> c = 0x85 \<or> c = 0xA0 \<or> c = 0x1680 \<or>
      (0x2000 \<le> c \<and> c \<le> 0x200A) \<or> c = 0x2028 \<or> c = 0x2029 \<or> c = 0x202F \<or> c = 0x205F \<or>
      c = 0x3000)"

definition py_strip_ws :: "ustr \<Rightarrow> ustr" where
  "py_strip_ws s = rev (dropWhile is_space (rev (dropWhile is_space s)))"

text \<open>\<open>s.ljust(w)\<close> and the format \<open>{s:<{w}}\<close>; \<open>s.center(w)\<close> as CPython pads it.\<close>

definition py_ljust :: "ustr \<Rightarrow> nat \<Rightarrow> ustr" where
  "py_ljust s w = s @ replicate (w - length s) SP"

definition py_center :: "ustr \<Rightarrow> nat \<Rightarrow> ustr" where
  "py_center s w =
     (if w \<le> length s then s
      else
        (let marg = w - length s;
             left = marg div 2 + (if odd marg \<and> odd w then 1 else 0)
         in replicate left SP @ s @ replicate (marg - left) SP))"

text \<open>\<open>s.rfind(sub)\<close>: the highest index at which \<open>sub\<close> starts, \<open>None\<close> for \<open>-1\<close>.\<close>

definition py_rfind :: "ustr \<Rightarrow> ustr \<Rightarrow> nat option" where
  "py_rfind sub s =
     (if length s < length sub then None
      else
        (case filter (\<lambda>i. take (length sub) (drop i s) = sub) (rev [0 ..< Suc (length s - length sub)]) of
           [] \<Rightarrow> None
         | i # _ \<Rightarrow> Some i))"

section \<open>Box layout\<close>

text \<open>\<open>truncate_with_ellipsis(text, max_len)\<close>, lines 128-132.\<close>

definition truncate_with_ellipsis :: "ustr \<Rightarrow> int \<Rightarrow> ustr" where
  "truncate_with_ellipsis s max_len =
     (if int (length s) \<le> max_len then s else py_take (max_len - 2) s @ asc ''..'')"

text \<open>
  Lines 156-162: the loop over \<open>enumerate(external)\<close>; the state is the list of lines
  and the line being filled.
\<close>

fun uses_loop :: "int \<Rightarrow> (nat \<times> ustr) list \<Rightarrow> ustr list \<times> ustr \<Rightarrow> ustr list \<times> ustr" where
  "uses_loop inner [] st = st"
| "uses_loop inner ((i, dep) # rest) (lines, current_line) =
     (let addition = (if i = 0 then dep else asc '', '' @ dep) in
      if int (length current_line) + int (length addition) \<le> inner
      then uses_loop inner rest (lines, current_line @ addition)
      else uses_loop inner rest (lines @ [current_line], asc ''      '' @ dep))"

text \<open>\<open>create_box_lines(path, functions, external, width)\<close>, lines 135-166.\<close>

definition create_box_lines :: "ustr \<Rightarrow> ustr list \<Rightarrow> ustr list \<Rightarrow> int \<Rightarrow> ustr list" where
  "create_box_lines path functions external width =
     (let inner = width - 4;
          title = basename path;
          lines1 = [] @ [truncate_with_ellipsis title inner];
          lines2 = lines1 @ [replicate (nat inner) HLINE];
          lines3 = fold (\<lambda>fn lines. lines @ [FHOOK # SP # fn @ asc ''()'']) (py_take 6 functions) lines2;
          lines4 = (if length functions > 6
                    then lines3 @ [asc ''  +'' @ py_str (length functions - 6) @ asc '' more'']
                    else lines3)
      in if external \<noteq> [] then
           (case uses_loop inner (enumerate 0 external) (lines4 @ [[]], asc ''uses: '') of
              (lines5, current_line) \<Rightarrow>
                if py_strip_ws current_line \<noteq> [] then lines5 @ [current_line] else lines5)
         else lines4)"

text \<open>
  The lines the block for the external usages (lines 152-164) adds to the box, the line
  of one function and the summary line.
\<close>

definition uses_block :: "ustr list \<Rightarrow> int \<Rightarrow> ustr list" where
  "uses_block external inner =
     (if external \<noteq> [] then
        (case uses_loop inner (enumerate 0 external) ([[]], asc ''uses: '') of
           (lines, current_line) \<Rightarrow>
             if py_strip_ws current_line \<noteq> [] then lines @ [current_line] else lines)
      else [])"

definition function_line :: "ustr \<Rightarrow> ustr" where
  "function_line fn = FHOOK # SP # fn @ asc ''()''"

definition more_line :: "nat \<Rightarrow> ustr" where
  "more_line k = asc ''  +'' @ py_str k @ asc '' more''"

section \<open>Flow renderer\<close>

record render_data =
  d_files :: "file_record list"
  d_external_deps :: "(ustr \<times> ustr list) list"

text \<open>Lines 227-230: how many dependency lists name each target, in order of first mention.\<close>

definition bump_count :: "ustr \<Rightarrow> (ustr \<times> nat) list \<Rightarrow> (ustr \<times> nat) list" where
  "bump_count target counts =
     AList.update target ((case map_of counts target of None \<Rightarrow> 0 | Some n \<Rightarrow> n) + 1) counts"

definition dep_counts_of :: "deps_map \<Rightarrow> (ustr \<times> nat) list" where
  "dep_counts_of internal_deps =
     fold (\<lambda>(src_path, targets) counts. fold bump_count targets counts) internal_deps []"

text \<open>Lines 233-238: the files of each top-level directory.\<close>

definition system_of :: "ustr \<Rightarrow> ustr" where
  "system_of path =
     (let parts = py_split (ch CHR ''/'') (py_replace (ch CHR 0x5C) (ch CHR ''/'') path)
      in if length parts > 1 then hd parts else asc ''.'')"

definition group_systems :: "file_record list \<Rightarrow> (ustr \<times> file_record list) list" where
  "group_systems files =
     fold (\<lambda>f systems.
             let system = system_of (f_path f)
             in AList.update system (dd_get systems system @ [f]) systems)
          files []"

text \<open>
  Lines 244-259. \<open>re.match(r'^v\d+$', name)\<close>: a \<open>v\<close>, one or more digits, and
  possibly one final newline. The set \<open>seen\<close> always holds the elements of \<open>names\<close>.
\<close>

definition is_digit :: "nat \<Rightarrow> bool" where
  "is_digit c = (ch CHR ''0'' \<le> c \<and> c \<le> ch CHR ''9'')"

definition is_version :: "ustr \<Rightarrow> bool" where
  "is_version name =
     (case name of
        [] \<Rightarrow> False
      | c # ds \<Rightarrow>
          c = ch CHR ''v'' \<and>
          (let digits = (if ds \<noteq> [] \<and> last ds = NL then butlast ds else ds)
           in digits \<noteq> [] \<and> list_all is_digit digits))"

fun ext_names_loop :: "ustr list \<Rightarrow> ustr list \<Rightarrow> ustr list option" where
  "ext_names_loop [] names = Some names"
| "ext_names_loop (d # ds) names =
     (let parts = py_split (ch CHR ''/'') d in
      case py_last parts of
        None \<Rightarrow> None
      | Some name0 \<Rightarrow>
          (let name = (if is_version name0 \<and> length parts > 1
                       then parts ! (length parts - 2) else name0)
           in if \<not> is_version name \<and> length name > 1 \<and> name \<notin> set names
              then ext_names_loop ds (names @ [name])
              else ext_names_loop ds names))"

fun ext_by_lang_loop ::
  "(ustr \<times> ustr list) list \<Rightarrow> (ustr \<Rightarrow> ustr list option) \<Rightarrow> (ustr \<Rightarrow> ustr list option) option" where
  "ext_by_lang_loop [] ext = Some ext"
| "ext_by_lang_loop ((lang, deps) # rest) ext =
     (if deps \<noteq> [] then
        (case ext_names_loop deps [] of
           None \<Rightarrow> None
         | Some names \<Rightarrow>
             if names \<noteq> [] then ext_by_lang_loop rest (ext(lang \<mapsto> names))
             else ext_by_lang_loop rest ext)
      else ext_by_lang_loop rest ext)"

text \<open>Lines 262-282: the lines of the external dependencies and the width of the panel.\<close>

definition lang_labels :: "(ustr \<times> ustr) list" where
  "lang_labels =
     [(asc ''go'', asc ''Go''), (asc ''javascript'', asc ''JS''), (asc ''python'', asc ''Py''),
      (asc ''rust'', asc ''Rs''), (asc ''ruby'', asc ''Rb''), (asc ''swift'', asc ''Swift''),
      (asc ''bash'', asc ''Sh''), (asc ''kotlin'', asc ''Kt''), (asc ''c_sharp'', asc ''C#''),
      (asc ''php'', asc ''PHP''), (asc ''dart'', asc ''Dart''), (asc ''r'', asc ''R'')]"

definition priority_langs :: "ustr list" where
  "priority_langs = map asc
     [''go'', ''javascript'', ''python'', ''swift'', ''rust'', ''ruby'', ''bash'', ''kotlin'',
      ''c_sharp'', ''php'', ''dart'', ''r'']"

definition dep_line_step ::
  "(ustr \<Rightarrow> ustr list option) \<Rightarrow> ustr \<Rightarrow> ustr list \<times> nat \<Rightarrow> ustr list \<times> nat" where
  "dep_line_step ext lang st =
     (case st of (dep_lines, max_width) \<Rightarrow>
        (case ext lang of
           None \<Rightarrow> (dep_lines, max_width)
         | Some names \<Rightarrow>
             (let label = (case map_of lang_labels lang of None \<Rightarrow> py_title lang | Some l \<Rightarrow> l);
                  line = label @ asc '': '' @ py_join (asc '', '') names
              in (dep_lines @ [line],
                  if length line + 4 > max_width then length line + 4 else max_width))))"

text \<open>
  Lines 296-305: the loop that wraps one line of external dependencies. In \<open>render\<close> the
  content width is at least 20; for a width below 6 the loop need not end.
\<close>

partial_function (option) wrap_loop :: "nat \<Rightarrow> ustr \<Rightarrow> ustr list \<Rightarrow> ustr list option" where
  "wrap_loop content_width line out =
     (if length line > content_width then
        (let break_at = (case py_rfind (asc '', '') (take content_width line) of
                           None \<Rightarrow> content_width - 1
                         | Some i \<Rightarrow> i + 1)
         in wrap_loop content_width
              (asc ''    '' @ py_lstrip [SP] (drop break_at line))
              (out @ [[VBAR, SP] @ py_ljust (take break_at line) content_width @ [SP, VBAR]]))
      else Some (out @ [[VBAR, SP] @ py_ljust line content_width @ [SP, VBAR]]))"

declare wrap_loop.simps [code]

fun wrap_lines :: "nat \<Rightarrow> ustr list \<Rightarrow> ustr list \<Rightarrow> ustr list option" where
  "wrap_lines content_width [] out = Some out"
| "wrap_lines content_width (line # rest) out =
     (case wrap_loop content_width line out of
        None \<Rightarrow> None
      | Some out' \<Rightarrow> wrap_lines content_width rest out')"

text \<open>Lines 241 and 262-308: the blank line, the panel and the blank line after it.\<close>

definition header_lines :: "ustr \<Rightarrow> (ustr \<Rightarrow> ustr list option) \<Rightarrow> ustr list option" where
  "header_lines project_name ext =
     (let title = project_name @ asc '' - Dependency Flow'' in
      case fold (dep_line_step ext) priority_langs ([], length title + 6) of
        (dep_lines, max_width0) \<Rightarrow>
          (let max_width = min max_width0 80;
               inner_width = max_width - 2;
               top_lines = [[], [ARC_DOWN_RIGHT] @ replicate inner_width HLINE @ [ARC_DOWN_LEFT],
                      [VBAR] @ py_center title inner_width @ [VBAR]]
           in case (if dep_lines \<noteq> []
                    then wrap_lines (inner_width - 2) dep_lines
                           (top_lines @ [[TEE_RIGHT] @ replicate inner_width HLINE @ [TEE_LEFT]])
                    else Some top_lines) of
                None \<Rightarrow> None
              | Some out \<Rightarrow>
                  Some (out @ [[ARC_UP_RIGHT] @ replicate inner_width HLINE @ [ARC_UP_LEFT], []])))"

text \<open>\<open>get_system_name(dir_path)\<close>, lines 182-190.\<close>

definition skip_dirs :: "ustr list" where
  "skip_dirs = map asc [''src'', ''lib'', ''app'', ''internal'', ''pkg'', ''.''] @ [[]]"

definition get_system_name :: "ustr \<Rightarrow> ustr" where
  "get_system_name dir_path =
     (let parts = py_split (ch CHR ''/'') (py_replace (ch CHR 0x5C) (ch CHR ''/'') dir_path);
          meaningful = filter (\<lambda>p. py_lower p \<notin> set skip_dirs) parts
      in if meaningful \<noteq> []
         then py_replace (ch CHR ''-'') SP (py_replace (ch CHR ''_'') SP (py_title (hd meaningful)))
         else if parts \<noteq> [] then py_title (last parts) else asc ''Root'')"

text \<open>
  Lines 363-367: the path of the first file whose basename is the target. The lists
  \<open>target_names\<close>, \<open>has_subdeps\<close> and \<open>no_subdeps\<close> of lines 342-356 and the set
  \<open>internal_names\<close> of lines 218-222 are built and never read; they are left out.
\<close>

definition find_t_path :: "file_record list \<Rightarrow> ustr \<Rightarrow> ustr option" where
  "find_t_path files t =
     (case filter (\<lambda>ff. basename (f_path ff) = t) files of
        [] \<Rightarrow> None
      | ff # _ \<Rightarrow> Some (f_path ff))"

definition arrow :: ustr where
  "arrow = [SP, HLINE, HLINE, HLINE, TRIANGLE, SP]"

definition branch_first :: ustr where
  "branch_first = [SP, HLINE, HLINE, TEE_DOWN, HLINE, HLINE, TRIANGLE, SP]"

definition branch_middle :: ustr where
  "branch_middle = [SP, SP, SP, TEE_RIGHT, HLINE, HLINE, TRIANGLE, SP]"

definition branch_last :: ustr where
  "branch_last = [SP, SP, SP, CORNER_UP_RIGHT, HLINE, HLINE, TRIANGLE, SP]"

text \<open>Lines 358-386: the lines printed for a file with its non-empty list of targets.\<close>

definition chain_lines :: "file_record list \<Rightarrow> deps_map \<Rightarrow> ustr \<Rightarrow> ustr list \<Rightarrow> ustr list" where
  "chain_lines files internal_deps name_no_ext targets =
     (if length targets = 1 then
        (let t = hd targets;
             t_name = sub_dot_ext t;
             sub_targets = (case find_t_path files t of
                              None \<Rightarrow> []
                            | Some t_path \<Rightarrow> if t_path \<noteq> [] then dd_get internal_deps t_path else []);
             chain =
               (if sub_targets \<noteq> [] then
                  (let sub_names = map sub_dot_ext (py_take 3 sub_targets);
                       chain0 = name_no_ext @ arrow @ t_name @ arrow @ py_join (asc '', '') sub_names
                   in if length sub_targets > 3
                      then chain0 @ asc '' +'' @ py_str (length sub_targets - 3)
                      else chain0)
                else name_no_ext @ arrow @ t_name)
         in [asc ''  '' @ chain])
      else
        (let target_strs = map sub_dot_ext targets in
         if length targets \<le> 4
         then [asc ''  '' @ name_no_ext @ arrow @ py_join (asc '', '') target_strs]
         else
           [asc ''  '' @ name_no_ext @ branch_first @ hd target_strs] @
           map (\<lambda>t. asc ''  '' @ replicate (length name_no_ext) SP @ branch_middle @ t)
             (take (length target_strs - 2) (drop 1 target_strs)) @
           [asc ''  '' @ replicate (length name_no_ext) SP @ branch_last @ last target_strs]))"

text \<open>
  Lines 330-388: one round of the loop over the files of a system; the state is the set
  \<open>rendered\<close> (as a list) and the lines printed so far.
\<close>

definition render_file ::
  "file_record list \<Rightarrow> deps_map \<Rightarrow> file_record \<Rightarrow> ustr list \<times> ustr list \<Rightarrow> ustr list \<times> ustr list" where
  "render_file files internal_deps f st =
     (case st of (rendered, out) \<Rightarrow>
        (let path = f_path f;
             base = basename path;
             name_no_ext = sub_dot_ext base
         in if base \<in> set rendered then (rendered, out)
            else
              (let targets = dd_get internal_deps path in
               if targets \<noteq> []
               then (rendered @ [base], out @ chain_lines files internal_deps name_no_ext targets)
               else (rendered, out))))"

text \<open>Lines 311-402: the section of one system; nothing is printed for a system without content.\<close>

definition has_content :: "deps_map \<Rightarrow> file_record list \<Rightarrow> bool" where
  "has_content internal_deps sys_files =
     list_ex (\<lambda>f. dd_get internal_deps (f_path f) \<noteq> [] \<or> or_empty (f_functions f) \<noteq> []) sys_files"

definition system_section :: "file_record list \<Rightarrow> deps_map \<Rightarrow> ustr \<Rightarrow> file_record list \<Rightarrow> ustr list" where
  "system_section files internal_deps system sys_files =
     (let system_name = get_system_name system in
      if \<not> has_content internal_deps sys_files then []
      else
        (case fold (render_file files internal_deps) sys_files ([], []) of
           (rendered, chain_out) \<Rightarrow>
             (let standalone_count =
                    length (filter (\<lambda>f. basename (f_path f) \<notin> set rendered \<and>
                                         or_empty (f_functions f) \<noteq> []) sys_files)
              in [system_name @ [SP] @ replicate (60 - length system_name - 1) DHLINE] @
                 chain_out @
                 (if standalone_count > 0
                  then [asc ''  +'' @ py_str standalone_count @ asc '' standalone files'']
                  else []) @
                 [[]])))"

text \<open>Lines 405-411: the hub list and the two lines printed for it.\<close>

definition hubs_of :: "(ustr \<times> nat) list \<Rightarrow> (ustr \<times> nat) list" where
  "hubs_of dep_counts =
     filter (\<lambda>(name, count). count \<ge> 2)
       (py_take 6 (sort_key (\<lambda>x. - int (snd x)) dep_counts))"

definition hub_str :: "ustr \<times> nat \<Rightarrow> ustr" where
  "hub_str h = (case h of (name, count) \<Rightarrow>
     sub_any_ext name @ asc '' ('' @ py_str count @ [LEFT_ARROW] @ asc '')'')"

definition hubs_section :: "(ustr \<times> nat) list \<Rightarrow> ustr list" where
  "hubs_section dep_counts =
     (if dep_counts \<noteq> [] then
        (let hubs = hubs_of dep_counts in
         if hubs \<noteq> []
         then [replicate 61 HLINE, asc ''HUBS: '' @ py_join (asc '', '') (map hub_str hubs)]
         else [])
      else [])"

text \<open>Lines 414-416: the summary line.\<close>

definition summary_line :: "file_record list \<Rightarrow> deps_map \<Rightarrow> ustr" where
  "summary_line files internal_deps =
     (let total_funcs = sum_list (map (\<lambda>f. length (or_empty (f_functions f))) files);
          internal_count = sum_list (map (\<lambda>(p, t). length t) internal_deps)
      in py_str (length files) @ asc '' files '' @ [MIDDLE_DOT] @ [SP] @ py_str total_funcs @
         asc '' functions '' @ [MIDDLE_DOT] @ [SP] @ py_str internal_count @ asc '' deps'')"

text \<open>
  \<open>render(data, project_name)\<close>, lines 208-417: the lines printed, in order; \<open>None\<close> when
  the call raises or does not return.
\<close>

definition render :: "render_data \<Rightarrow> ustr \<Rightarrow> ustr list option" where
  "render data project_name =
     (let files = d_files data in
      if files = [] then Some [asc ''  No source files found.'']
      else
        (case find_internal_deps files of
           None \<Rightarrow> None
         | Some internal_deps \<Rightarrow>
             (let dep_counts = dep_counts_of internal_deps;
                  systems = group_systems files
              in case ext_by_lang_loop (d_external_deps data) Map.empty of
                   None \<Rightarrow> None
                 | Some ext \<Rightarrow>
                     (case header_lines project_name ext of
                        None \<Rightarrow> None
                      | Some header \<Rightarrow>
                          Some (header @
                                concat (map (\<lambda>system. system_section files internal_deps system
                                                         (dd_get systems system))
                                          (sort (map fst systems))) @
                                hubs_section dep_counts @
                                [summary_line files internal_deps, []])))))"

section \<open>Example inputs\<close>

text \<open>A file record written with ASCII literals; both optional fields are present.\<close>

definition file_of :: "string \<Rightarrow> string \<Rightarrow> string list \<Rightarrow> string list \<Rightarrow> file_record" where
  "file_of p l is fs =
     \<lparr>f_path = asc p, f_language = asc l, f_imports = Some (map asc is),
      f_functions = Some (map asc fs)\<rparr>"

text \<open>Two records for one path with different languages, and a Python module both could import.\<close>

definition shared_path_files :: "file_record list" where
  "shared_path_files =
     [file_of ''x.py'' ''python'' [''b''] [],
      file_of ''x.py'' ''go'' [] [],
      file_of ''b.py'' ''python'' [] []]"

text \<open>A JavaScript file that imports a TypeScript module.\<close>

definition js_ts_files :: "file_record list" where
  "js_ts_files =
     [file_of ''a.js'' ''javascript'' [''./b''] [],
      file_of ''b.ts'' ''typescript'' [] []]"

text \<open>
  Two files named \<open>x.py\<close> in two directories of the system \<open>s\<close>, each importing the same
  five modules of that system.
\<close>

definition same_basename_files :: "file_record list" where
  "same_basename_files =
     [file_of ''s/a/x.py'' ''python'' [''p'', ''q'', ''r'', ''u'', ''v''] [],
      file_of ''s/b/x.py'' ''python'' [''p'', ''q'', ''r'', ''u'', ''v''] [],
      file_of ''s/p.py'' ''python'' [] [],
      file_of ''s/q.py'' ''python'' [] [],
      file_of ''s/r.py'' ''python'' [] [],
      file_of ''s/u.py'' ''python'' [] [],
      file_of ''s/v.py'' ''python'' [] []]"

definition five_targets :: "ustr list" where
  "five_targets = map asc [''p.py'', ''q.py'', ''r.py'', ''u.py'', ''v.py'']"

text \<open>
  A file whose name is a newline followed by \<open>ab\<close>, imported by two Python files.
\<close>

definition newline_name :: ustr where
  "newline_name = NL # asc ''ab''"

definition newline_hub_files :: "file_record list" where
  "newline_hub_files =
     [\<lparr>f_path = newline_name, f_language = asc ''python'', f_imports = None, f_functions = None\<rparr>,
      \<lparr>f_path = asc ''x.py'', f_language = asc ''python'', f_imports = Some [newline_name],
       f_functions = None\<rparr>,
      \<lparr>f_path = asc ''y.py'', f_language = asc ''python'', f_imports = Some [newline_name],
       f_functions = None\<rparr>]"

text \<open>Eight counted targets, seven of them named at least twice.\<close>

definition eight_counts :: "(ustr \<times> nat) list" where
  "eight_counts = [(asc ''a'', 1), (asc ''b'', 3), (asc ''c'', 2), (asc ''d'', 5), (asc ''e'', 2),
                   (asc ''f'', 2), (asc ''g'', 4), (asc ''h'', 2)]"

section \<open>Evaluation on concrete inputs\<close>

lemmas text_eval = asc_def basename_def after_last_def py_lower_def lower_cp_def py_strip_def
  quote_chars_def py_last_def normalize_basename_def normalize_import_def Let_def

lemmas resolver_eval = find_internal_deps_def name_to_infos_def index_file_def file_of_def
  lang_group_def LANG_GROUPS_def or_empty_def stdlib_names_def dd_get_def dd_touch_def

section \<open>Properties of the text functions\<close>

lemma py_split_ne: "py_split sep s \<noteq> []"
  by (induction s) (auto split: list.splits)

lemma py_split_single: "sep \<notin> set s \<Longrightarrow> py_split sep s = [s]"
  by (induction s) (auto split: list.splits)

lemma takeWhile_rev_all: "sep \<notin> set s \<Longrightarrow> takeWhile (\<lambda>c. c \<noteq> sep) (rev s) = rev s"
  by (simp add: takeWhile_eq_all_conv) blast

lemma after_last_none: "sep \<notin> set s \<Longrightarrow> after_last sep s = s"
  by (simp add: after_last_def takeWhile_rev_all)

lemma after_last_split: "sep \<notin> set suf \<Longrightarrow> after_last sep (pre @ sep # suf) = suf"
  by (simp add: after_last_def takeWhile_tail takeWhile_rev_all)

lemma length_py_split: "length (py_split sep s) = Suc (length (filter (\<lambda>c. c = sep) s))"
  by (induction s) (auto split: list.splits)

lemma last_py_split_split: "sep \<notin> set suf \<Longrightarrow> last (py_split sep (pre @ sep # suf)) = suf"
proof (induction pre)
  case Nil
  then show ?case by (simp add: py_split_single)
next
  case (Cons c pre)
  have "length (py_split sep (pre @ sep # suf)) \<ge> 2"
    by (simp add: length_py_split)
  then obtain a b r where "py_split sep (pre @ sep # suf) = a # b # r"
    by (cases "py_split sep (pre @ sep # suf)" rule: remdups_adj.cases) auto
  then show ?case using Cons by auto
qed

lemma split_at_last: "sep \<in> set s \<Longrightarrow> \<exists>pre suf. s = pre @ sep # suf \<and> sep \<notin> set suf"
  by (metis split_list_last)

lemma last_py_split: "last (py_split sep s) = after_last sep s"
proof (cases "sep \<in> set s")
  case True
  then obtain pre suf where "s = pre @ sep # suf" "sep \<notin> set suf"
    using split_at_last by metis
  then show ?thesis by (simp add: last_py_split_split after_last_split)
next
  case False
  then show ?thesis by (simp add: py_split_single after_last_none)
qed

lemma py_last_split: "py_last (py_split sep s) = Some (after_last sep s)"
  by (simp add: py_last_def py_split_ne last_py_split)

lemma source_exts_facts:
  "e \<in> set source_exts \<Longrightarrow> e \<noteq> [] \<and> ch CHR ''.'' \<notin> set e \<and> NL \<notin> set e"
  by (auto simp: source_exts_def asc_def)

lemma sub_known_ext_hit: 
  assumes "e \<in> set source_exts" shows "sub_known_ext (x @ ch CHR ''.'' # e) = x"
proof (induction x)
  case Nil
  then show ?case using assms by simp
next
  case (Cons c x)
  have "x @ ch CHR ''.'' # e \<notin> set source_exts"
    using source_exts_facts by fastforce
  moreover have "butlast (x @ ch CHR ''.'' # e) \<notin> set source_exts"
    using source_exts_facts[OF assms] source_exts_facts[of "butlast (x @ ch CHR ''.'' # e)"]
    by (auto simp: butlast_append)
  ultimately show ?case using Cons by simp
qed

lemma sub_known_ext_hit_nl: 
  assumes "e \<in> set source_exts" shows "sub_known_ext (x @ ch CHR ''.'' # e @ [NL]) = x @ [NL]"
proof (induction x)
  case Nil
  then show ?case using assms source_exts_facts[of "e @ [NL]"] 
    by (auto simp del: of_char_Char)
next
  case (Cons c x)
  have "x @ ch CHR ''.'' # e @ [NL] \<notin> set source_exts"
    using source_exts_facts by fastforce
  moreover have "butlast (x @ ch CHR ''.'' # e @ [NL]) \<notin> set source_exts"
    using source_exts_facts[of "butlast (x @ ch CHR ''.'' # e @ [NL])"]
    by (auto simp: butlast_append)
  ultimately show ?case using Cons by simp
qed

lemma sub_known_ext_miss:
  assumes "\<And>e. e \<in> set source_exts \<Longrightarrow> \<not> suffix (ch CHR ''.'' # e) s \<and> \<not> suffix (ch CHR ''.'' # e @ [NL]) s"
  shows "sub_known_ext s = s"
  using assms
proof (induction s)
  case Nil
  then show ?case by simp
next
  case (Cons c s)
  have ih: "sub_known_ext s = s"
    by (rule Cons.IH) (use Cons.prems in \<open>auto simp: suffix_Cons\<close>)
  have a: "\<not> (c = ch CHR ''.'' \<and> s \<in> set source_exts)"
    using Cons.prems[of s] by auto
  have b: "\<not> (c = ch CHR ''.'' \<and> s \<noteq> [] \<and> last s = NL \<and> butlast s \<in> set source_exts)"
  proof
    assume h: "c = ch CHR ''.'' \<and> s \<noteq> [] \<and> last s = NL \<and> butlast s \<in> set source_exts"
    then have "s = butlast s @ [NL]" by (metis append_butlast_last_id)
    then have "suffix (ch CHR ''.'' # butlast s @ [NL]) (c # s)" using h by simp
    then show False using Cons.prems[of "butlast s"] h by blast
  qed
  show ?case using a b ih by auto
qed

lemma strip_trailing_ext_hit:
  "filter (\<lambda>e. suffix (ch CHR ''.'' # e) s) source_exts = e # es \<Longrightarrow>
   e \<in> set source_exts \<and> (\<exists>x. s = x @ ch CHR ''.'' # e \<and> strip_trailing_ext s = x)"
proof -
  assume h: "filter (\<lambda>e. suffix (ch CHR ''.'' # e) s) source_exts = e # es"
  then have "e \<in> set (filter (\<lambda>e. suffix (ch CHR ''.'' # e) s) source_exts)" by simp
  then have m: "e \<in> set source_exts" and sf: "suffix (ch CHR ''.'' # e) s" by auto
  from sf obtain x where x: "s = x @ ch CHR ''.'' # e" by (auto simp: suffix_def)
  have "strip_trailing_ext s = take (length s - Suc (length e)) s"
    using h by (simp add: strip_trailing_ext_def)
  then have "strip_trailing_ext s = x" using x by simp
  then show ?thesis using m x by blast
qed

lemma strip_trailing_ext_miss:
  "filter (\<lambda>e. suffix (ch CHR ''.'' # e) s) source_exts = [] \<Longrightarrow> strip_trailing_ext s = s"
  by (simp add: strip_trailing_ext_def)

lemma sub_known_ext_eq: "sub_known_ext s = strip_trailing_ext_nl s"
proof (cases "filter (\<lambda>e. suffix (ch CHR ''.'' # e) s) source_exts")
  case (Cons e es)
  from strip_trailing_ext_hit[OF Cons] obtain x where
    m: "e \<in> set source_exts" and x: "s = x @ ch CHR ''.'' # e" and st: "strip_trailing_ext s = x"
    by blast
  have "last s \<noteq> NL" using x source_exts_facts[OF m] by (auto simp: last_append) (metis last_in_set)
  then have "strip_trailing_ext_nl s = x" using st by (simp add: strip_trailing_ext_nl_def)
  moreover have "sub_known_ext s = x" using sub_known_ext_hit[OF m] x by simp
  ultimately show ?thesis by simp
next
  case Nil
  note none = Nil
  show ?thesis
  proof (cases "s \<noteq> [] \<and> last s = NL \<and> strip_trailing_ext (butlast s) \<noteq> butlast s")
    case True
    then obtain e es where f: "filter (\<lambda>e. suffix (ch CHR ''.'' # e) (butlast s)) source_exts = e # es"
      using strip_trailing_ext_miss[of "butlast s"] by (cases "filter (\<lambda>e. suffix (ch CHR ''.'' # e) (butlast s)) source_exts") auto
    from strip_trailing_ext_hit[OF f] obtain x where
      m: "e \<in> set source_exts" and x: "butlast s = x @ ch CHR ''.'' # e" and st: "strip_trailing_ext (butlast s) = x"
      by blast
    have s: "s = x @ ch CHR ''.'' # e @ [NL]" using True x by (metis append_butlast_last_id append_Cons append_assoc)
    have "strip_trailing_ext_nl s = x @ [NL]" using True st by (simp add: strip_trailing_ext_nl_def)
    then show ?thesis using sub_known_ext_hit_nl[OF m, of x] s by simp
  next
    case False
    have a: "\<not> suffix (ch CHR ''.'' # e) s" if "e \<in> set source_exts" for e
      using none that by (auto simp: filter_empty_conv)
    have b: "\<not> suffix (ch CHR ''.'' # e @ [NL]) s" if m: "e \<in> set source_exts" for e
    proof
      assume "suffix (ch CHR ''.'' # e @ [NL]) s"
      then obtain x where x: "s = x @ ch CHR ''.'' # e @ [NL]" by (auto simp: suffix_def)
      then have bl: "butlast s = x @ ch CHR ''.'' # e" by (simp add: butlast_append)
      have "suffix (ch CHR ''.'' # e) (butlast s)" using bl by (simp add: suffix_def)
      then have "filter (\<lambda>e. suffix (ch CHR ''.'' # e) (butlast s)) source_exts \<noteq> []"
        using m unfolding filter_empty_conv by blast
      then obtain e' es' where f: "filter (\<lambda>e. suffix (ch CHR ''.'' # e) (butlast s)) source_exts = e' # es'"
        by (cases "filter (\<lambda>e. suffix (ch CHR ''.'' # e) (butlast s)) source_exts") auto
      from strip_trailing_ext_hit[OF f] obtain x' where
        "butlast s = x' @ ch CHR ''.'' # e'" "strip_trailing_ext (butlast s) = x'" by blast
      then have "length (strip_trailing_ext (butlast s)) < length (butlast s)"
        by (metis length_append length_Cons less_add_Suc1 add_Suc_right)
      then have "strip_trailing_ext (butlast s) \<noteq> butlast s" by auto
      then show False using False x by simp
    qed
    have "strip_trailing_ext_nl s = s" using False strip_trailing_ext_miss[OF none]
      by (auto simp: strip_trailing_ext_nl_def)
    then show ?thesis using sub_known_ext_miss[of s] a b by simp
  qed
qed

lemma normalize_import_refines: "normalize_import imp lang = Some (normalize_spec_nl imp)"
  by (simp add: normalize_import_def normalize_spec_nl_def py_last_split sub_known_ext_eq Let_def)


text \<open>
  Claim C3, as amended. The code is the five steps of the specification, step 4 read as
  \<open>$\<close> behaves: strip surrounding quotes; after a \<open>/\<close> keep the final segment; if a dot
  is present and the text does not start with one, keep what follows the final dot; remove
  one trailing extension of the enumerated set, also when a single final newline follows it
  (the newline stays); lower-case. The call never raises: it always returns a string.
\<close>

theorem normalize_import_five_steps:
  "normalize_import imp lang = Some (normalize_spec_nl imp)"
  by (rule normalize_import_refines)

theorem normalize_import_five_steps_witness:
  "normalize_spec_nl (ch CHR 0x22 # asc ''./Foo/Bar.JS'' @ [ch CHR 0x22]) = asc ''js'' \<and>
   normalize_import (ch CHR 0x22 # asc ''./Foo/Bar.JS'' @ [ch CHR 0x22]) (asc ''javascript'') = Some (asc ''js'')"
proof -
  have e: "normalize_spec_nl (ch CHR 0x22 # asc ''./Foo/Bar.JS'' @ [ch CHR 0x22]) = asc ''js''"
    by code_simp
  show ?thesis
    using normalize_import_five_steps[of "ch CHR 0x22 # asc ''./Foo/Bar.JS'' @ [ch CHR 0x22]" "asc ''javascript''"] e
    by simp
qed

text \<open>
  Claim C3 as stated fails on \<open>.py\<close> followed by a newline: the text does not end with an
  extension, so the five steps as written leave it alone, while the code deletes \<open>.py\<close>
  and returns the newline.
\<close>

theorem normalize_import_trailing_newline_counterexample:
  "normalize_import (asc ''.py'' @ [NL]) (asc ''python'') = Some [NL] \<and>
   normalize_spec (asc ''.py'' @ [NL]) = asc ''.py'' @ [NL]"
  by code_simp

subsection \<open>Normalizing a basename key\<close>




















section \<open>Properties of the resolver\<close>

lemma dd_get_touch: "dd_get (dd_touch d k) p = dd_get d p"
  by (auto simp: dd_get_def dd_touch_def map_add_def split: option.splits)

lemma dd_get_update: "dd_get (AList.update k v d) p = (if p = k then v else dd_get d p)"
  by (simp add: dd_get_def update_conv')

lemma dd_get_Nil: "dd_get [] p = []"
  by (simp add: dd_get_def)

lemma candidates_loop_inv:
  assumes "I deps"
    and touch: "\<And>d. I d \<Longrightarrow> I (dd_touch d path)"
    and app: "\<And>d tp. I d \<Longrightarrow> (tp, src_group) \<in> set cands \<Longrightarrow> tp \<noteq> path \<Longrightarrow>
               basename tp \<noteq> basename path \<Longrightarrow> basename tp \<notin> set (dd_get d path) \<Longrightarrow>
               I (AList.update path (dd_get d path @ [basename tp]) d)"
  shows "I (candidates_loop path src_group cands deps)"
  using assms
proof (induction cands arbitrary: deps)
  case Nil
  then show ?case by simp
next
  case (Cons c cands)
  obtain tp tg where c: "c = (tp, tg)" by (cases c)
  have step: "I (candidates_loop path src_group cands d)" if "I d" for d
    using Cons.IH[OF that Cons.prems(2)] Cons.prems(3) by auto
  show ?case
  proof (cases "tp = path \<or> src_group \<noteq> tg \<or> basename tp = basename path")
    case True
    then show ?thesis using step[OF Cons.prems(1)] by (auto simp: c)
  next
    case False
    let ?d1 = "dd_touch deps path"
    have i1: "I ?d1" using Cons.prems(1,2) by simp
    show ?thesis
    proof (cases "basename tp \<in> set (dd_get ?d1 path)")
      case True
      then show ?thesis using False step[OF i1] by (simp add: c Let_def)
    next
      case nin: False
      have "I (AList.update path (dd_get ?d1 path @ [basename tp]) ?d1)"
        using Cons.prems(3)[OF i1, of tp] False nin by (simp add: c)
      from step[OF this] show ?thesis using False nin by (simp add: c Let_def)
    qed
  qed
qed

lemma normalize_import_total: "\<exists>n. normalize_import imp lang = Some n"
  by (simp add: normalize_import_refines)

lemma imports_loop_inv:
  assumes "I deps"
    and "\<And>cands d n. idx n = Some cands \<Longrightarrow> I d \<Longrightarrow> I (candidates_loop path (lang_group lang) cands d)"
  shows "\<exists>d'. imports_loop idx path lang imps deps = Some d' \<and> I d'"
  using assms
proof (induction imps arbitrary: deps)
  case Nil
  then show ?case by simp
next
  case (Cons imp imps)
  obtain norm where n: "normalize_import imp lang = Some norm"
    using normalize_import_total by blast
  show ?case
    using Cons.IH[OF Cons.prems(1) Cons.prems(2)] Cons.IH[OF Cons.prems(2)[OF _ Cons.prems(1)] Cons.prems(2)]
    by (auto simp: n split: option.splits simp del: of_char_Char)
qed

lemma files_loop_inv:
  assumes "I deps"
    and "\<And>f cands d n. f \<in> set fs \<Longrightarrow> idx n = Some cands \<Longrightarrow> I d \<Longrightarrow>
           I (candidates_loop (f_path f) (lang_group (f_language f)) cands d)"
  shows "\<exists>d'. files_loop idx fs deps = Some d' \<and> I d'"
  using assms
proof (induction fs arbitrary: deps)
  case Nil
  then show ?case by simp
next
  case (Cons f fs)
  obtain d1 where d1: "imports_loop idx (f_path f) (f_language f) (or_empty (f_imports f)) deps = Some d1" "I d1"
    using imports_loop_inv[of I deps idx "f_path f" "f_language f"] Cons.prems by (metis list.set_intros(1))
  have "\<exists>d'. files_loop idx fs d1 = Some d' \<and> I d'"
    by (rule Cons.IH[OF d1(2)]) (use Cons.prems(2) in auto)
  then show ?case using d1 by simp
qed

lemma index_sound_fold:
  assumes "\<And>n l tp tg. idx n = Some l \<Longrightarrow> (tp, tg) \<in> set l \<Longrightarrow>
             \<exists>g\<in>F. f_path g = tp \<and> lang_group (f_language g) = tg"
    and "set fs \<subseteq> F"
    and "fold index_file fs idx n = Some l" and "(tp, tg) \<in> set l"  
  shows "\<exists>g\<in>F. f_path g = tp \<and> lang_group (f_language g) = tg"
  using assms
proof (induction fs arbitrary: idx)
  case Nil
  then show ?case by simp
next
  case (Cons f fs)
  show ?case
  proof (rule Cons.IH[of "index_file f idx"])
    fix n l tp tg
    assume "index_file f idx n = Some l" "(tp, tg) \<in> set l"
    then show "\<exists>g\<in>F. f_path g = tp \<and> lang_group (f_language g) = tg"
      using Cons.prems(1,2)
      by (auto simp: index_file_def Let_def split: if_splits option.splits)
  qed (use Cons.prems in auto)
qed

lemma name_to_infos_sound:
  "name_to_infos files n = Some l \<Longrightarrow> (tp, tg) \<in> set l \<Longrightarrow>
     \<exists>g\<in>set files. f_path g = tp \<and> lang_group (f_language g) = tg"
  unfolding name_to_infos_def
  by (rule index_sound_fold[where idx = Map.empty and fs = files]) auto


text \<open>
  Claim C1. For every file list the resolver returns a dependency map, and for every file
  of the list the basename of the file is not among the targets stored under its path.
\<close>

theorem find_internal_deps_no_self: "\<exists>deps. find_internal_deps files = Some deps \<and>
   (\<forall>f\<in>set files. basename (f_path f) \<notin> set (dd_get deps (f_path f)))"
proof -
  let ?I = "\<lambda>d. \<forall>p. basename p \<notin> set (dd_get d p)"
  have "\<exists>d'. files_loop (name_to_infos files) files [] = Some d' \<and> ?I d'"
  proof (rule files_loop_inv)
    show "?I []" by (simp add: dd_get_Nil)
  next
    fix f cands d n
    assume "?I d"
    then show "?I (candidates_loop (f_path f) (lang_group (f_language f)) cands d)"
      by (rule candidates_loop_inv) (auto simp: dd_get_touch dd_get_update)
  qed
  then show ?thesis by (auto simp: find_internal_deps_def)
qed

theorem find_internal_deps_no_self_witness:
  "find_internal_deps js_ts_files = Some [(asc ''a.js'', [asc ''b.ts''])] \<and>
   basename (asc ''a.js'') \<notin> set (dd_get [(asc ''a.js'', [asc ''b.ts''])] (asc ''a.js'')) \<and>
   basename (asc ''b.ts'') \<notin> set (dd_get [(asc ''a.js'', [asc ''b.ts''])] (asc ''b.ts''))"
proof -
  have e: "find_internal_deps js_ts_files = Some [(asc ''a.js'', [asc ''b.ts''])]"
    by code_simp
  have s: "set js_ts_files = {file_of ''a.js'' ''javascript'' [''./b''] [], file_of ''b.ts'' ''typescript'' [] []}"
    by (simp add: js_ts_files_def)
  have p: "f_path (file_of ''a.js'' ''javascript'' [''./b''] []) = asc ''a.js''"
          "f_path (file_of ''b.ts'' ''typescript'' [] []) = asc ''b.ts''"
    by (simp_all add: file_of_def)
  from find_internal_deps_no_self[of js_ts_files] e s p show ?thesis by simp
qed

text \<open>
  Claim C2, as amended. For every file list the resolver returns a dependency map in
  which, for every file, the targets stored under its path are pairwise different; and
  when records with the same path have the same language group, each of these targets is
  the basename of a file of the list whose language group is that of the file.
\<close>

theorem find_internal_deps_same_group:
  "\<exists>deps. find_internal_deps files = Some deps \<and>
     (\<forall>f\<in>set files. distinct (dd_get deps (f_path f))) \<and>
     ((\<forall>f\<in>set files. \<forall>g\<in>set files. f_path f = f_path g \<longrightarrow>
          lang_group (f_language f) = lang_group (f_language g)) \<longrightarrow>
      (\<forall>f\<in>set files. \<forall>t\<in>set (dd_get deps (f_path f)).
          \<exists>g\<in>set files. basename (f_path g) = t \<and>
             lang_group (f_language g) = lang_group (f_language f)))"
proof -
  let ?I = "\<lambda>d. \<forall>p. distinct (dd_get d p) \<and>
      (\<forall>t\<in>set (dd_get d p). \<exists>src\<in>set files. \<exists>g\<in>set files.
          f_path src = p \<and> basename (f_path g) = t \<and>
          lang_group (f_language g) = lang_group (f_language src))"
  have "\<exists>d'. files_loop (name_to_infos files) files [] = Some d' \<and> ?I d'"
  proof (rule files_loop_inv)
    show "?I []" by (simp add: dd_get_Nil)
  next
    fix f cands d n
    assume f: "f \<in> set files" and idx: "name_to_infos files n = Some cands" and d: "?I d"
    show "?I (candidates_loop (f_path f) (lang_group (f_language f)) cands d)"
    proof (rule candidates_loop_inv[where I = ?I, OF d])
      fix d0 assume "?I d0"
      then show "?I (dd_touch d0 (f_path f))" by (simp add: dd_get_touch)
    next
      fix d0 tp
      assume d0: "?I d0" and m: "(tp, lang_group (f_language f)) \<in> set cands"
        and nin: "basename tp \<notin> set (dd_get d0 (f_path f))"
      from name_to_infos_sound[OF idx m] obtain g where
        g: "g \<in> set files" "f_path g = tp" "lang_group (f_language g) = lang_group (f_language f)"
        by blast
      show "?I (AList.update (f_path f) (dd_get d0 (f_path f) @ [basename tp]) d0)"
        using d0 nin f g by (auto simp: dd_get_update)
    qed
  qed
  then obtain deps where deps: "find_internal_deps files = Some deps" and I: "?I deps"
    by (auto simp: find_internal_deps_def)
  have a: "\<forall>f\<in>set files. distinct (dd_get deps (f_path f))" using I by blast
  have b: "\<forall>f\<in>set files. \<forall>t\<in>set (dd_get deps (f_path f)).
          \<exists>g\<in>set files. basename (f_path g) = t \<and>
             lang_group (f_language g) = lang_group (f_language f)"
    if h: "\<forall>f\<in>set files. \<forall>g\<in>set files. f_path f = f_path g \<longrightarrow>
          lang_group (f_language f) = lang_group (f_language g)"
  proof (intro ballI)
    fix f t assume f: "f \<in> set files" and "t \<in> set (dd_get deps (f_path f))"
    with I obtain src g where "src \<in> set files" "g \<in> set files" "f_path src = f_path f"
      "basename (f_path g) = t" "lang_group (f_language g) = lang_group (f_language src)"
      by blast
    moreover from this h f have "lang_group (f_language src) = lang_group (f_language f)" by blast
    ultimately show "\<exists>g\<in>set files. basename (f_path g) = t \<and>
            lang_group (f_language g) = lang_group (f_language f)" by auto
  qed
  from deps a b show ?thesis by blast
qed

theorem find_internal_deps_same_group_witness:
  "find_internal_deps js_ts_files = Some [(asc ''a.js'', [asc ''b.ts''])] \<and>
   map f_path js_ts_files = [asc ''a.js'', asc ''b.ts''] \<and> asc ''a.js'' \<noteq> asc ''b.ts'' \<and>
   lang_group (asc ''javascript'') = asc ''js'' \<and>
   lang_group (asc ''typescript'') = asc ''js'' \<and>
   distinct (dd_get [(asc ''a.js'', [asc ''b.ts''])] (asc ''a.js'')) \<and>
   (\<exists>g\<in>set js_ts_files. basename (f_path g) = asc ''b.ts'' \<and>
      lang_group (f_language g) = lang_group (asc ''javascript''))"
proof -
  let ?a = "file_of ''a.js'' ''javascript'' [''./b''] []"
  let ?b = "file_of ''b.ts'' ''typescript'' [] []"
  have e: "find_internal_deps js_ts_files = Some [(asc ''a.js'', [asc ''b.ts''])]"
    by (simp add: resolver_eval text_eval js_ts_files_def)
  have g: "lang_group (asc ''javascript'') = asc ''js''" "lang_group (asc ''typescript'') = asc ''js''"
    by (simp_all add: lang_group_def LANG_GROUPS_def asc_def)
  have s: "set js_ts_files = {?a, ?b}"
    by (simp add: js_ts_files_def)
  have p: "f_path ?a = asc ''a.js''" "f_path ?b = asc ''b.ts''"
          "f_language ?a = asc ''javascript''" "f_language ?b = asc ''typescript''"
    by (simp_all add: file_of_def)
  have m: "map f_path js_ts_files = [asc ''a.js'', asc ''b.ts'']" "asc ''a.js'' \<noteq> asc ''b.ts''"
    by (simp_all add: js_ts_files_def file_of_def asc_def)
  have h: "\<forall>f\<in>set js_ts_files. \<forall>g\<in>set js_ts_files. f_path f = f_path g \<longrightarrow>
             lang_group (f_language f) = lang_group (f_language g)"
    unfolding s using p g by auto
  from find_internal_deps_same_group[of js_ts_files] obtain deps where
    d: "find_internal_deps js_ts_files = Some deps"
    and dist: "\<forall>f\<in>set js_ts_files. distinct (dd_get deps (f_path f))"
    and grp: "(\<forall>f\<in>set js_ts_files. \<forall>g\<in>set js_ts_files. f_path f = f_path g \<longrightarrow>
          lang_group (f_language f) = lang_group (f_language g)) \<longrightarrow>
      (\<forall>f\<in>set js_ts_files. \<forall>t\<in>set (dd_get deps (f_path f)).
          \<exists>g\<in>set js_ts_files. basename (f_path g) = t \<and>
             lang_group (f_language g) = lang_group (f_language f))"
    by blast
  from d e have deps: "deps = [(asc ''a.js'', [asc ''b.ts''])]" by simp
  have fa: "?a \<in> set js_ts_files" unfolding s by simp
  have t: "asc ''b.ts'' \<in> set (dd_get deps (f_path ?a))"
    unfolding deps p by (simp add: dd_get_def)
  from dist fa have x: "distinct (dd_get [(asc ''a.js'', [asc ''b.ts''])] (asc ''a.js''))"
    unfolding deps p(1)[symmetric] by blast
  from grp h fa t have y: "\<exists>g\<in>set js_ts_files. basename (f_path g) = asc ''b.ts'' \<and>
      lang_group (f_language g) = lang_group (asc ''javascript'')"
    unfolding p(3)[symmetric] by blast
  from e m g x y show ?thesis by blast
qed

text \<open>
  Claim C2 as stated fails when two records share a path: the map is keyed by path, so the
  target \<open>b.py\<close> found for the Python record of \<open>x.py\<close> also stands under the path of
  the Go record of \<open>x.py\<close>, and no file named \<open>b.py\<close> is in the group \<open>go\<close>.
\<close>

theorem find_internal_deps_same_group_counterexample:
  "find_internal_deps shared_path_files = Some [(asc ''x.py'', [asc ''b.py''])] \<and>
   file_of ''x.py'' ''go'' [] [] \<in> set shared_path_files \<and>
   dd_get [(asc ''x.py'', [asc ''b.py''])] (f_path (file_of ''x.py'' ''go'' [] [])) = [asc ''b.py''] \<and>
   lang_group (f_language (file_of ''x.py'' ''go'' [] [])) = asc ''go'' \<and>
   filter (\<lambda>g. basename (f_path g) = asc ''b.py'' \<and> lang_group (f_language g) = asc ''go'')
     shared_path_files = []"
  by code_simp

section \<open>Properties of the box layout\<close>

lemma fold_append_lines: "fold (\<lambda>x lines. lines @ [g x]) xs acc = acc @ map g xs"
  by (induction xs arbitrary: acc) auto

lemma uses_loop_prefix:
  "uses_loop inner xs (pre @ ls, cur) =
     (pre @ fst (uses_loop inner xs (ls, cur)), snd (uses_loop inner xs (ls, cur)))"
proof (induction xs arbitrary: ls cur)
  case Nil
  then show ?case by simp
next
  case (Cons x xs)
  obtain i dep where x: "x = (i, dep)" by (cases x)
  show ?case
    using Cons.IH[of ls] Cons.IH[of "ls @ [cur]"]
    by (simp add: x Let_def)
qed

lemma py_take_nat: "py_take (int n) xs = take n xs"
  by (simp add: py_take_def)

lemma py_take_6: "py_take 6 xs = take 6 xs"
  by (simp add: py_take_def)

text \<open>
  Claim C6. The box content is the title line and the separator, then one line
  \<open>FHOOK name()\<close> for each of the first \<open>min 6 n\<close> functions in declaration order, then,
  exactly when the number \<open>n\<close> of functions exceeds 6, the one summary line \<open>+(n-6) more\<close>
  (indented by two spaces), then the lines of the external usages.
\<close>

theorem create_box_lines_functions:
  "create_box_lines path functions external width =
     [truncate_with_ellipsis (basename path) (width - 4), replicate (nat (width - 4)) HLINE] @
     map function_line (take 6 functions) @
     (if length functions > 6 then [more_line (length functions - 6)] else []) @
     uses_block external (width - 4)"
proof -
  define hd_lines where "hd_lines =
     [truncate_with_ellipsis (basename path) (width - 4), replicate (nat (width - 4)) HLINE] @
     map function_line (take 6 functions) @
     (if length functions > 6 then [more_line (length functions - 6)] else [])"
  define r where "r = uses_loop (width - 4) (enumerate 0 external) ([[]], asc ''uses: '')"
  have fl: "(\<lambda>fn. FHOOK # SP # fn @ asc ''()'') = function_line"
    by (rule ext) (simp add: function_line_def)
  have l4: "(if length functions > 6
             then fold (\<lambda>fn lines. lines @ [FHOOK # SP # fn @ asc ''()'']) (py_take 6 functions)
                    (([] @ [truncate_with_ellipsis (basename path) (width - 4)]) @ [replicate (nat (width - 4)) HLINE]) @
                  [asc ''  +'' @ py_str (length functions - 6) @ asc '' more'']
             else fold (\<lambda>fn lines. lines @ [FHOOK # SP # fn @ asc ''()'']) (py_take 6 functions)
                    (([] @ [truncate_with_ellipsis (basename path) (width - 4)]) @ [replicate (nat (width - 4)) HLINE]))
            = hd_lines"
    by (simp add: hd_lines_def fold_append_lines py_take_6 function_line_def more_line_def)
  have cb: "create_box_lines path functions external width =
     (if external \<noteq> [] then
        (case uses_loop (width - 4) (enumerate 0 external) (hd_lines @ [[]], asc ''uses: '') of
           (lines5, current_line) \<Rightarrow>
             if py_strip_ws current_line \<noteq> [] then lines5 @ [current_line] else lines5)
      else hd_lines)"
    unfolding create_box_lines_def Let_def l4 ..
  have pre: "uses_loop (width - 4) (enumerate 0 external) (hd_lines @ [[]], asc ''uses: '') =
       (hd_lines @ fst r, snd r)"
    unfolding r_def by (rule uses_loop_prefix)
  have ub: "uses_block external (width - 4) =
     (if external \<noteq> [] then (if py_strip_ws (snd r) \<noteq> [] then fst r @ [snd r] else fst r) else [])"
    by (simp add: uses_block_def r_def split: prod.splits)
  have "create_box_lines path functions external width = hd_lines @ uses_block external (width - 4)"
    unfolding cb pre ub by simp
  then show ?thesis by (simp add: hd_lines_def)
qed

text \<open>Five functions: all five and no summary line. Eight functions: six and \<open>+2 more\<close>.\<close>

theorem create_box_lines_functions_witness:
  "create_box_lines (asc ''src/a.py'') (map asc [''f1'', ''f2'', ''f3'', ''f4'', ''f5'']) [] 34 =
     [asc ''a.py'', replicate 30 HLINE,
      FHOOK # asc '' f1()'', FHOOK # asc '' f2()'', FHOOK # asc '' f3()'', FHOOK # asc '' f4()'',
      FHOOK # asc '' f5()''] \<and>
   create_box_lines (asc ''src/a.py'') (map asc [''f1'', ''f2'', ''f3'', ''f4'', ''f5'', ''f6'', ''f7'', ''f8'']) [] 34 =
     [asc ''a.py'', replicate 30 HLINE,
      FHOOK # asc '' f1()'', FHOOK # asc '' f2()'', FHOOK # asc '' f3()'', FHOOK # asc '' f4()'',
      FHOOK # asc '' f5()'', FHOOK # asc '' f6()'', asc ''  +2 more'']"
  using create_box_lines_functions[of "asc ''src/a.py''" "map asc [''f1'', ''f2'', ''f3'', ''f4'', ''f5'']" "[]" 34]
    create_box_lines_functions[of "asc ''src/a.py''" "map asc [''f1'', ''f2'', ''f3'', ''f4'', ''f5'', ''f6'', ''f7'', ''f8'']" "[]" 34]
  by (simp add: text_eval truncate_with_ellipsis_def function_line_def more_line_def uses_block_def py_str.simps)

section \<open>Properties of the flow renderer\<close>

text \<open>
  Claim C5. When the sequence of files is empty, \<open>render\<close> prints exactly one line, the
  text \<open>No source files found.\<close> (after two spaces), and returns: no header panel, no
  system section, no hubs line and no summary line.
\<close>

theorem render_empty_files:
  "d_files data = [] \<Longrightarrow> render data project_name = Some [asc ''  No source files found.'']"
  by (simp add: render_def)

theorem render_empty_files_witness:
  "d_files \<lparr>d_files = [], d_external_deps = [(asc ''go'', [asc ''github.com/x/cobra''])]\<rparr> = [] \<and>
   render \<lparr>d_files = [], d_external_deps = [(asc ''go'', [asc ''github.com/x/cobra''])]\<rparr> (asc ''demo'') =
     Some [asc ''  No source files found.'']"
  using render_empty_files[of "\<lparr>d_files = [], d_external_deps = [(asc ''go'', [asc ''github.com/x/cobra''])]\<rparr>" "asc ''demo''"]
  by simp

subsection \<open>The renderer returns\<close>

text \<open>
  The loop that wraps a line of external dependencies ends for every content width of at
  least 6, and \<open>render\<close> calls it with a width of at least 20; no call in \<open>render\<close> raises.
  So \<open>render\<close> returns for every input, and for a non-empty file list its output ends
  with the lines of the hubs, the summary line and a blank line.
\<close>

lemma py_rfind_Some:
  assumes "py_rfind sub s = Some i"
  shows "take (length sub) (drop i s) = sub \<and> i + length sub \<le> length s"
proof -
  from assms have le: "length sub \<le> length s"
    by (auto simp: py_rfind_def split: if_splits)
  from assms obtain rest where
    "filter (\<lambda>i. take (length sub) (drop i s) = sub) (rev [0 ..< Suc (length s - length sub)]) = i # rest"
    by (auto simp: py_rfind_def split: if_splits list.splits)
  then have "i \<in> set (filter (\<lambda>i. take (length sub) (drop i s) = sub) (rev [0 ..< Suc (length s - length sub)]))"
    by simp
  then have "take (length sub) (drop i s) = sub" and "i \<in> set (rev [0 ..< Suc (length s - length sub)])"
    unfolding set_filter by blast+
  moreover from this(2) have "i \<le> length s - length sub" unfolding set_rev set_upt by simp
  ultimately show ?thesis using le by simp
qed

lemma py_rfind_pair:
  "py_rfind [a, b] s = Some i \<Longrightarrow> take 2 (drop i s) = [a, b] \<and> i + 2 \<le> length s"
  using py_rfind_Some[of "[a, b]" s i] by (simp add: numeral_2_eq_2)

lemma comma_space_at:
  assumes "py_rfind (asc '', '') (take cw line) = Some i"
  shows "Suc i < length line \<and> line ! i = ch CHR '','' \<and> line ! Suc i = SP"
proof -
  let ?t = "take cw line"
  have cs: "asc '', '' = [ch CHR '','', SP]" by (simp add: asc_def)
  from assms have "py_rfind [ch CHR '','', SP] ?t = Some i" unfolding cs .
  from py_rfind_pair[OF this] have t: "take 2 (drop i ?t) = [ch CHR '','', SP]" and l: "i + 2 \<le> length ?t"
    by blast+
  from l have il: "Suc i < length ?t" by simp
  have "?t ! i = take 2 (drop i ?t) ! 0" using il by simp
  moreover have "?t ! Suc i = take 2 (drop i ?t) ! 1" using il by simp
  ultimately have "?t ! i = ch CHR '',''" "?t ! Suc i = SP" using t by simp_all
  moreover have "?t ! i = line ! i" "?t ! Suc i = line ! Suc i" using il by simp_all
  ultimately show ?thesis using il by simp
qed

lemma length_py_lstrip_le: "length (py_lstrip chars s) \<le> length s"
  by (simp add: py_lstrip_def length_dropWhile_le)

lemma length_py_lstrip_less:
  "s \<noteq> [] \<Longrightarrow> hd s \<in> set chars \<Longrightarrow> length (py_lstrip chars s) < length s"
  by (cases s) (auto simp: py_lstrip_def intro: le_imp_less_Suc length_dropWhile_le)

lemma wrap_loop_indented:
  assumes "6 \<le> cw" and "prefix (asc ''    '') line"
  shows "\<exists>r. wrap_loop cw line out = Some r"
  using assms(2)
proof (induction "length line" arbitrary: line out rule: less_induct)
  case less
  show ?case
  proof (cases "length line > cw")
    case False
    then show ?thesis by (subst wrap_loop.simps) simp
  next
    case True
    define break_at where "break_at =
      (case py_rfind (asc '', '') (take cw line) of None \<Rightarrow> cw - 1 | Some i \<Rightarrow> i + 1)"
    define line' where "line' = asc ''    '' @ py_lstrip [SP] (drop break_at line)"
    have shorter: "length line' < length line"
    proof (cases "py_rfind (asc '', '') (take cw line)")
      case None
      then have "break_at = cw - 1" by (simp add: break_at_def)
      then have "length (drop break_at line) + 5 \<le> length line" using True assms(1) by simp
      moreover have "length line' \<le> 4 + length (drop break_at line)"
        using length_py_lstrip_le[of "[SP]" "drop break_at line"] by (simp add: line'_def asc_def)
      ultimately show ?thesis by simp
    next
      case (Some i)
      from comma_space_at[OF Some] have i: "Suc i < length line" "line ! i = ch CHR '',''" "line ! Suc i = SP"
        by simp_all
      have "4 \<le> i"
      proof (rule ccontr)
        assume "\<not> 4 \<le> i"
        then have "i < 4" by simp
        moreover from less.prems obtain rest where "line = asc ''    '' @ rest" by (auto simp: prefix_def)
        ultimately have "line ! i = SP"
          by (auto simp: asc_def nth_Cons' split: if_splits)
        then show False using i(2) by simp
      qed
      have ba: "break_at = Suc i" using Some by (simp add: break_at_def)
      have ne: "drop break_at line \<noteq> []" using i(1) ba by simp
      have "hd (drop break_at line) = SP" using i(1,3) ba by (simp add: hd_drop_conv_nth)
      then have "length (py_lstrip [SP] (drop break_at line)) < length (drop break_at line)"
        using ne by (intro length_py_lstrip_less) simp_all
      then have "length line' < 4 + (length line - Suc i)" by (simp add: line'_def asc_def ba)
      then show ?thesis using \<open>4 \<le> i\<close> i(1) by simp
    qed
    have "prefix (asc ''    '') line'" by (simp add: line'_def)
    from less.hyps[OF shorter this] obtain r where
      "wrap_loop cw line'
         (out @ [[VBAR, SP] @ py_ljust (take break_at line) cw @ [SP, VBAR]]) = Some r"
      by blast
    then show ?thesis
      using True by (subst wrap_loop.simps) (simp add: Let_def break_at_def[symmetric] line'_def[symmetric])
  qed
qed

lemma wrap_loop_returns:
  assumes "6 \<le> cw"
  shows "\<exists>r. wrap_loop cw line out = Some r"
proof (cases "length line > cw")
  case False
  then show ?thesis by (subst wrap_loop.simps) simp
next
  case True
  define break_at where "break_at =
      (case py_rfind (asc '', '') (take cw line) of None \<Rightarrow> cw - 1 | Some i \<Rightarrow> i + 1)"
  define line' where "line' = asc ''    '' @ py_lstrip [SP] (drop break_at line)"
  have "prefix (asc ''    '') line'" by (simp add: line'_def)
  from wrap_loop_indented[OF assms this] obtain r where
    "wrap_loop cw line'
       (out @ [[VBAR, SP] @ py_ljust (take break_at line) cw @ [SP, VBAR]]) = Some r"
    by blast
  then show ?thesis
    using True by (subst wrap_loop.simps) (simp add: Let_def break_at_def[symmetric] line'_def[symmetric])
qed

lemma wrap_lines_returns: "6 \<le> cw \<Longrightarrow> \<exists>r. wrap_lines cw ls out = Some r"
proof (induction ls arbitrary: out)
  case Nil
  then show ?case by simp
next
  case (Cons l ls)
  from wrap_loop_returns[OF Cons.prems] obtain o1 where "wrap_loop cw l out = Some o1" by blast
  then show ?case using Cons.IH[OF Cons.prems, of o1] by simp
qed

lemma dep_line_step_width: "w \<le> snd (fold (dep_line_step ext) ls (d, w))"
proof (induction ls arbitrary: d w)
  case Nil
  then show ?case by simp
next
  case (Cons l ls)
  obtain d1 w1 where s: "dep_line_step ext l (d, w) = (d1, w1)" by (cases "dep_line_step ext l (d, w)")
  then have "w \<le> w1" by (auto simp: dep_line_step_def Let_def split: option.splits if_splits)
  then show ?case using Cons.IH[of w1 d1] s by simp
qed

lemma header_lines_returns: "\<exists>h. header_lines project_name ext = Some h"
proof -
  let ?title = "project_name @ asc '' - Dependency Flow''"
  obtain dl mw where f: "fold (dep_line_step ext) priority_langs ([], length ?title + 6) = (dl, mw)"
    by (cases "fold (dep_line_step ext) priority_langs ([], length ?title + 6)")
  have "length ?title + 6 \<le> mw"
    using dep_line_step_width[of "length ?title + 6" ext priority_langs "[]"] f by simp
  then have "24 \<le> mw" by (simp add: asc_def)
  then have cw: "6 \<le> min mw 80 - 2 - 2" by simp
  show ?thesis
  proof (cases "dl = []")
    case True
    then show ?thesis using f by (simp add: header_lines_def Let_def)
  next
    case False
    from wrap_lines_returns[OF cw] obtain r where
      "wrap_lines (min mw 80 - 2 - 2) dl
         ([[], [ARC_DOWN_RIGHT] @ replicate (min mw 80 - 2) HLINE @ [ARC_DOWN_LEFT],
           [VBAR] @ py_center ?title (min mw 80 - 2) @ [VBAR]] @
          [[TEE_RIGHT] @ replicate (min mw 80 - 2) HLINE @ [TEE_LEFT]]) = Some r"
      by blast
    then show ?thesis using f False by (simp add: header_lines_def Let_def)
  qed
qed

lemma ext_names_loop_returns: "\<exists>n. ext_names_loop ds names = Some n"
  by (induction ds arbitrary: names) (auto simp: Let_def py_last_split simp del: of_char_Char)

lemma ext_by_lang_loop_returns: "\<exists>e. ext_by_lang_loop xs ext = Some e"
proof (induction xs arbitrary: ext)
  case Nil
  then show ?case by simp
next
  case (Cons x xs)
  obtain lang deps where x: "x = (lang, deps)" by (cases x)
  obtain n where n: "ext_names_loop deps [] = Some n" using ext_names_loop_returns by blast
  show ?case using Cons.IH by (simp add: x n)
qed

lemma find_internal_deps_returns: "\<exists>deps. find_internal_deps files = Some deps"
proof -
  have "\<exists>d'. files_loop (name_to_infos files) files [] = Some d' \<and> True"
    by (rule files_loop_inv) simp_all
  then show ?thesis by (simp add: find_internal_deps_def)
qed

lemma render_shape:
  assumes "d_files data \<noteq> []"
  shows "\<exists>deps pre. find_internal_deps (d_files data) = Some deps \<and>
     render data project_name =
       Some (pre @ hubs_section (dep_counts_of deps) @ [summary_line (d_files data) deps, []])"
proof -
  obtain deps where d: "find_internal_deps (d_files data) = Some deps"
    using find_internal_deps_returns by blast
  obtain e where e: "ext_by_lang_loop (d_external_deps data) Map.empty = Some e"
    using ext_by_lang_loop_returns by blast
  obtain h where h: "header_lines project_name e = Some h"
    using header_lines_returns by blast
  show ?thesis using assms d e h by (simp add: render_def Let_def)
qed

lemma render_returns: "\<exists>out. render data project_name = Some out"
proof (cases "d_files data = []")
  case True
  then show ?thesis by (simp add: render_def)
next
  case False
  from render_shape[OF False] show ?thesis by blast
qed

subsection \<open>Branching trees\<close>




lemma deps_same_basename:
  "find_internal_deps same_basename_files =
     Some [(asc ''s/a/x.py'', five_targets), (asc ''s/b/x.py'', five_targets)]"
  by (simp add: resolver_eval text_eval same_basename_files_def five_targets_def)







subsection \<open>Hubs\<close>

lemma hubs_len: "length (hubs_of dc) \<le> 6"
proof -
  have "length (hubs_of dc) \<le> length (py_take 6 (sort_key (\<lambda>x. - int (snd x)) dc))"
    unfolding hubs_of_def by (rule length_filter_le)
  also have "\<dots> \<le> 6" by (simp add: py_take_6)
  finally show ?thesis .
qed

lemma hubs_ge2: "(n, c) \<in> set (hubs_of dc) \<Longrightarrow> 2 \<le> c"
  by (auto simp: hubs_of_def)

lemma hubs_sorted: "sorted_wrt (\<lambda>a b. snd a \<ge> snd b) (hubs_of dc)"
proof -
  let ?k = "\<lambda>x::ustr \<times> nat. - int (snd x)"
  have "sorted (map ?k (sort_key ?k dc))" by (rule sorted_sort_key)
  then have "sorted_wrt (\<lambda>a b. snd a \<ge> snd b) (sort_key ?k dc)"
    by (simp add: sorted_map)
  then have "sorted_wrt (\<lambda>a b. snd a \<ge> snd b) (take 6 (sort_key ?k dc))"
    by (rule sorted_wrt_take)
  then show ?thesis
    unfolding hubs_of_def by (simp add: sorted_wrt_filter py_take_6)
qed

lemma hubs_nonempty_iff: "hubs_of dc \<noteq> [] \<longleftrightarrow> (\<exists>x\<in>set dc. 2 \<le> snd x)"
proof
  assume "hubs_of dc \<noteq> []"
  then obtain x where "x \<in> set (hubs_of dc)" by (cases "hubs_of dc") auto
  then have "x \<in> set dc" "2 \<le> snd x"
    by (auto simp: hubs_of_def py_take_6 dest: in_set_takeD)
  then show "\<exists>x\<in>set dc. 2 \<le> snd x" by blast
next
  let ?k = "\<lambda>x::ustr \<times> nat. - int (snd x)"
  let ?s = "sort_key ?k dc"
  assume "\<exists>x\<in>set dc. 2 \<le> snd x"
  then obtain x where x: "x \<in> set dc" "2 \<le> snd x" by blast
  then have ne: "?s \<noteq> []" by (metis empty_iff list.set(1) set_sort)
  then obtain h t where ht: "?s = h # t" by (cases ?s) auto
  have "sorted (map ?k ?s)" by (rule sorted_sort_key)
  moreover have "x \<in> set ?s" using x by simp
  ultimately have "?k h \<le> ?k x" unfolding ht by auto
  then have "2 \<le> snd h" using x by simp
  then have "h \<in> set (hubs_of dc)"
    by (auto simp: hubs_of_def ht py_take_6)
  then show "hubs_of dc \<noteq> []" by auto
qed

text \<open>
  Claim C8. For every table of incoming-dependency counts, the hub list has at most 6
  entries, every entry has a count of at least 2, and the counts do not increase along the
  list; the rule and the HUBS line are printed exactly when some target has a count of at
  least 2, and nothing is printed for the hubs otherwise. For every input with a non-empty
  file list \<open>render\<close> returns, and these lines, computed from the counts of the resolved
  dependency map, stand in its output just before the summary line.
\<close>

theorem hub_list_bounds:
  "length (hubs_of dep_counts) \<le> 6 \<and>
   (\<forall>h\<in>set (hubs_of dep_counts). 2 \<le> snd h) \<and>
   sorted_wrt (\<lambda>a b. snd b \<le> snd a) (hubs_of dep_counts) \<and>
   hubs_section dep_counts =
     (if \<exists>h\<in>set dep_counts. 2 \<le> snd h
      then [replicate 61 HLINE, asc ''HUBS: '' @ py_join (asc '', '') (map hub_str (hubs_of dep_counts))]
      else []) \<and>
   (d_files data \<noteq> [] \<longrightarrow>
      (\<exists>deps pre. find_internal_deps (d_files data) = Some deps \<and>
         render data project_name =
           Some (pre @ hubs_section (dep_counts_of deps) @ [summary_line (d_files data) deps, []])))"
proof -
  have a: "\<forall>h\<in>set (hubs_of dep_counts). 2 \<le> snd h"
    using hubs_ge2 by fastforce
  have b: "hubs_section dep_counts =
     (if \<exists>h\<in>set dep_counts. 2 \<le> snd h
      then [replicate 61 HLINE, asc ''HUBS: '' @ py_join (asc '', '') (map hub_str (hubs_of dep_counts))]
      else [])"
    using hubs_nonempty_iff[of dep_counts]
    by (cases "dep_counts = []") (auto simp: hubs_section_def Let_def)
  have c: "d_files data \<noteq> [] \<longrightarrow>
      (\<exists>deps pre. find_internal_deps (d_files data) = Some deps \<and>
         render data project_name =
           Some (pre @ hubs_section (dep_counts_of deps) @ [summary_line (d_files data) deps, []]))"
    using render_shape by blast
  show ?thesis using hubs_len hubs_sorted a b c by blast
qed

theorem hub_list_bounds_witness:
  "hubs_of eight_counts =
     [(asc ''d'', 5), (asc ''g'', 4), (asc ''b'', 3), (asc ''c'', 2), (asc ''e'', 2), (asc ''f'', 2)] \<and>
   length (hubs_of eight_counts) \<le> 6 \<and>
   sorted_wrt (\<lambda>a b. snd b \<le> snd a) (hubs_of eight_counts) \<and>
   hubs_section eight_counts \<noteq> [] \<and>
   hubs_section [(asc ''a'', 1)] = [] \<and>
   d_files \<lparr>d_files = same_basename_files, d_external_deps = []\<rparr> \<noteq> [] \<and>
   (\<exists>pre. render \<lparr>d_files = same_basename_files, d_external_deps = []\<rparr> (asc ''demo'') =
      Some (pre @
        hubs_section (dep_counts_of [(asc ''s/a/x.py'', five_targets), (asc ''s/b/x.py'', five_targets)]) @
        [summary_line same_basename_files [(asc ''s/a/x.py'', five_targets), (asc ''s/b/x.py'', five_targets)], []]))"
proof -
  let ?data = "\<lparr>d_files = same_basename_files, d_external_deps = []\<rparr>"
  have e: "hubs_of eight_counts =
     [(asc ''d'', 5), (asc ''g'', 4), (asc ''b'', 3), (asc ''c'', 2), (asc ''e'', 2), (asc ''f'', 2)]"
    by (simp add: hubs_of_def eight_counts_def py_take_def asc_def)
  have x: "\<exists>h\<in>set eight_counts. 2 \<le> snd h" by (auto simp: eight_counts_def)
  have y: "\<not> (\<exists>h\<in>set [(asc ''a'', 1::nat)]. 2 \<le> snd h)" by simp
  have ne: "d_files ?data \<noteq> []" by (simp add: same_basename_files_def)
  from hub_list_bounds[of eight_counts ?data "asc ''demo''"] ne
  obtain deps pre where r: "find_internal_deps (d_files ?data) = Some deps"
    "render ?data (asc ''demo'') =
       Some (pre @ hubs_section (dep_counts_of deps) @ [summary_line (d_files ?data) deps, []])"
    by blast
  from r(1) have "deps = [(asc ''s/a/x.py'', five_targets), (asc ''s/b/x.py'', five_targets)]"
    using deps_same_basename by simp
  with r(2) have z: "\<exists>pre. render ?data (asc ''demo'') =
      Some (pre @
        hubs_section (dep_counts_of [(asc ''s/a/x.py'', five_targets), (asc ''s/b/x.py'', five_targets)]) @
        [summary_line same_basename_files [(asc ''s/a/x.py'', five_targets), (asc ''s/b/x.py'', five_targets)], []])"
    by auto
  from hub_list_bounds[of eight_counts ?data "asc ''demo''"]
       hub_list_bounds[of "[(asc ''a'', 1)]" ?data "asc ''demo''"] e x y ne z
  show ?thesis by simp
qed

lemma sub_any_ext_all:
  "name \<noteq> [] \<Longrightarrow> hd name \<noteq> NL \<Longrightarrow> length name \<ge> 2 \<Longrightarrow> ch CHR ''.'' \<notin> set name \<Longrightarrow> sub_any_ext name = []"
  by (cases name) auto

text \<open>
  Claim C10, as amended. For every hub entry whose target basename contains no dot, has
  length at least 2 and does not begin with a newline, the pattern of the HUBS line matches
  the whole name: the printed name is empty and the entry is \<open> (count\<leftarrow>)\<close>.
\<close>

theorem hub_name_without_extension:
  assumes "ch CHR ''.'' \<notin> set name" and "2 \<le> length name" and "hd name \<noteq> NL"
  shows "sub_any_ext name = [] \<and>
         hub_str (name, count) = asc '' ('' @ py_str count @ [LEFT_ARROW] @ asc '')''"
proof -
  have "name \<noteq> []" using assms(2) by auto
  then have "sub_any_ext name = []" using assms by (simp add: sub_any_ext_all)
  then show ?thesis by (simp add: hub_str_def)
qed

theorem hub_name_without_extension_witness:
  "ch CHR ''.'' \<notin> set (asc ''Makefile'') \<and> 2 \<le> length (asc ''Makefile'') \<and>
   hd (asc ''Makefile'') \<noteq> NL \<and> sub_any_ext (asc ''Makefile'') = [] \<and>
   hub_str (asc ''Makefile'', 3) = asc '' (3'' @ [LEFT_ARROW] @ asc '')''"
proof -
  have a: "ch CHR ''.'' \<notin> set (asc ''Makefile'')" by (simp add: asc_def)
  have b: "2 \<le> length (asc ''Makefile'')" by (simp add: asc_def)
  have c: "hd (asc ''Makefile'') \<noteq> NL" by (simp add: asc_def)
  have d: "py_str 3 = asc ''3''" by (simp add: py_str.simps asc_def)
  from hub_name_without_extension[OF a b c, of 3] a b c d show ?thesis by (simp add: asc_def)
qed

text \<open>
  Claim C10 as stated fails for a basename that begins with a newline: the unescaped dot
  of the pattern does not match a newline, the match starts at the second character, and
  the printed name is the newline.
\<close>

theorem hub_name_newline_counterexample:
  "find_internal_deps newline_hub_files =
     Some [(asc ''x.py'', [newline_name]), (asc ''y.py'', [newline_name])] \<and>
   hubs_of (dep_counts_of [(asc ''x.py'', [newline_name]), (asc ''y.py'', [newline_name])]) =
     [(newline_name, 2)] \<and>
   ch CHR ''.'' \<notin> set newline_name \<and> length newline_name = 3 \<and>
   sub_any_ext newline_name = [NL] \<and>
   hubs_section (dep_counts_of [(asc ''x.py'', [newline_name]), (asc ''y.py'', [newline_name])]) =
     [replicate 61 HLINE, asc ''HUBS: '' @ [NL] @ asc '' (2'' @ [LEFT_ARROW] @ asc '')'']"
  by (simp add: resolver_eval text_eval newline_hub_files_def newline_name_def
      hubs_section_def hubs_of_def dep_counts_of_def bump_count_def hub_str_def py_take_def py_str.simps)

end
